theory Spec2Isabelle
  imports Main "HOL-Library.Multiset" "HOL-Library.Word"
begin

section \<open>Type traits: \<open>is_vector_type\<close>\<close>

text \<open>
  The OpenCL value types of the library: the scalar types \<open>char_\<close> ... \<open>double_\<close>
  (typedefs of \<open>cl_char\<close> ... \<open>cl_double\<close>) and,
  for each of them, the vector types with 2, 4, 8 or 16 components. A constant may not end
  with an underscore, so \<open>int_\<close> is \<open>scalar int_t\<close> here and \<open>float4_\<close> is
  \<open>float4 = vector float_t N4\<close>.
\<close>

datatype scalar_type =
  char_t | uchar_t | short_t | ushort_t | int_t | uint_t | long_t | ulong_t | float_t | double_t

datatype vector_width = N2 | N4 | N8 | N16

datatype cl_type = scalar scalar_type | vector scalar_type vector_width

fun width_value :: "vector_width \<Rightarrow> nat" where
  "width_value N2 = 2"
| "width_value N4 = 4"
| "width_value N8 = 8"
| "width_value N16 = 16"

text \<open>
  Modelled from the spec: \<open>vector_size\<close> (\<open>boost/compute/type_traits/vector_size.hpp\<close> is
  not among the sources). It is the number of components of a type: 1 for a scalar type,
  \<open>N\<close> for a vector type of \<open>N\<close> components.
\<close>

fun vector_size :: "cl_type \<Rightarrow> nat" where
  "vector_size (scalar s) = 1"
| "vector_size (vector s w) = width_value w"

text \<open>
  \<open>is_vector_type<T>::value = (vector_size<T>::value != 1)\<close>. The trait it reads is a
  parameter, so that the definition is the one of the source for every \<open>vector_size\<close>.
\<close>

definition is_vector_type :: "('t \<Rightarrow> nat) \<Rightarrow> 't \<Rightarrow> bool" where
  "is_vector_type vsize T = (vsize T \<noteq> 1)"

definition float4 :: cl_type where
  "float4 = vector float_t N4"

section \<open>The \<open>program\<close> class\<close>

subsection \<open>Handles and the driver\<close>

text \<open>
  A \<open>cl_program\<close> is an opaque handle of the OpenCL driver; the null handle is \<open>0\<close>.
  \<open>cl_int\<close> is the driver's 32-bit status code (signed when read by \<open>sint\<close>) and \<open>CL_SUCCESS\<close> is zero.

  The driver is outside the repository. What the class does to it is recorded as the
  list of the calls it makes, in order; the driver's own answers (status codes, created
  handles, queried values) are parameters of the functions that ask for them.
\<close>

type_synonym cl_program = nat
type_synonym cl_context = nat
type_synonym cl_int = "32 word"

definition CL_SUCCESS :: cl_int where
  "CL_SUCCESS = 0"

datatype cl_call =
    clRetainProgram cl_program
  | clReleaseProgram cl_program
  | clBuildProgram cl_program "string option"
  | clCreateProgramWithSource cl_context string
  | clCreateProgramWithBinary cl_context "8 word list"
  | clRetainContext cl_context

datatype exception = opencl_error cl_int

text \<open>
  The reference count the driver keeps for a handle goes up by one at each
  \<open>clRetainProgram\<close> and down by one at each \<open>clReleaseProgram\<close>: \<open>count_change cs h\<close> is
  its change over the calls \<open>cs\<close>.
\<close>

definition count_change :: "cl_call list \<Rightarrow> cl_program \<Rightarrow> int" where
  "count_change cs h =
     int (count_list cs (clRetainProgram h)) - int (count_list cs (clReleaseProgram h))"

subsection \<open>Construction and destruction\<close>

record program =
  m_program :: cl_program

text \<open>The calls of \<open>if(h){ clRetainProgram(h); }\<close> and \<open>if(h){ clReleaseProgram(h); }\<close>.\<close>

definition retain_if :: "cl_program \<Rightarrow> cl_call list" where
  "retain_if h = (if h \<noteq> 0 then [clRetainProgram h] else [])"

definition release_if :: "cl_program \<Rightarrow> cl_call list" where
  "release_if h = (if h \<noteq> 0 then [clReleaseProgram h] else [])"

text \<open>\<open>program()\<close>\<close>

definition program_null :: program where
  "program_null = \<lparr>m_program = 0\<rparr>"

text \<open>\<open>program(cl_program program, bool retain = true)\<close>: the new object and the calls made.\<close>

definition program_new :: "cl_program \<Rightarrow> bool \<Rightarrow> program \<times> cl_call list" where
  "program_new h retain =
     (\<lparr>m_program = h\<rparr>, if h \<noteq> 0 \<and> retain then [clRetainProgram h] else [])"

text \<open>\<open>program(const program &other)\<close>\<close>

definition program_copy :: "program \<Rightarrow> program \<times> cl_call list" where
  "program_copy other = (\<lparr>m_program = m_program other\<rparr>, retain_if (m_program other))"

text \<open>\<open>program(program&& other)\<close>: the new object and what is left of \<open>other\<close>.\<close>

definition program_move :: "program \<Rightarrow> program \<times> program" where
  "program_move other = (\<lparr>m_program = m_program other\<rparr>, other\<lparr>m_program := 0\<rparr>)"

text \<open>
  \<open>~program()\<close>. \<open>BOOST_COMPUTE_ASSERT_CL_SUCCESS\<close> evaluates its argument in every
  configuration, so the release is made whenever the handle is not null.
\<close>

definition program_destroy :: "program \<Rightarrow> cl_call list" where
  "program_destroy p = release_if (m_program p)"

subsection \<open>Objects in memory\<close>

text \<open>
  Assignment compares addresses (\<open>this != &other\<close>) and writes through both of them, so
  the objects live in a store: the object at address \<open>a\<close> is \<open>objects s ! a\<close>, \<open>None\<close> once
  it is destroyed. A constructor places its object at the next free address.
  Using an object that is not alive is undefined behaviour in C++; here it is \<open>None\<close>.
\<close>

record state =
  objects :: "program option list"
  calls :: "cl_call list"

definition init :: state where
  "init = \<lparr>objects = [], calls = []\<rparr>"

definition alive :: "state \<Rightarrow> nat \<Rightarrow> bool" where
  "alive s a = (a < length (objects s) \<and> objects s ! a \<noteq> None)"

definition handle_of :: "state \<Rightarrow> nat \<Rightarrow> cl_program" where
  "handle_of s a = (case objects s ! a of Some p \<Rightarrow> m_program p | None \<Rightarrow> 0)"

definition set_handle :: "nat \<Rightarrow> cl_program \<Rightarrow> state \<Rightarrow> state" where
  "set_handle a h s = s\<lparr>objects := (objects s)[a := Some \<lparr>m_program = h\<rparr>]\<rparr>"

definition call :: "cl_call list \<Rightarrow> state \<Rightarrow> state" where
  "call cs s = s\<lparr>calls := calls s @ cs\<rparr>"

definition place :: "program \<Rightarrow> state \<Rightarrow> state" where
  "place p s = s\<lparr>objects := objects s @ [Some p]\<rparr>"

text \<open>\<open>program& operator=(const program &other)\<close>, with \<open>this\<close> and \<open>&other\<close> as addresses.\<close>

definition assign_copy :: "nat \<Rightarrow> nat \<Rightarrow> state \<Rightarrow> state option" where
  "assign_copy this other s =
     (if alive s this \<and> alive s other then
        Some (if this \<noteq> other then
                let s1 = call (release_if (handle_of s this)) s;
                    s2 = set_handle this (handle_of s1 other) s1
                in call (retain_if (handle_of s2 this)) s2
              else s)
      else None)"

text \<open>\<open>program& operator=(program&& other)\<close>: no test of \<open>this\<close> against \<open>&other\<close>.\<close>

definition assign_move :: "nat \<Rightarrow> nat \<Rightarrow> state \<Rightarrow> state option" where
  "assign_move this other s =
     (if alive s this \<and> alive s other then
        Some (let s1 = call (release_if (handle_of s this)) s;
                  s2 = set_handle this (handle_of s1 other) s1
              in set_handle other 0 s2)
      else None)"

text \<open>The operations of the class on the store.\<close>

datatype operation =
    construct_null
  | construct cl_program bool
  | construct_copy nat
  | copy_assign nat nat
  | construct_move nat
  | move_assign nat nat
  | destroy nat

fun step :: "operation \<Rightarrow> state \<Rightarrow> state option" where
  "step construct_null s = Some (place program_null s)"
| "step (construct h retain) s =
     (let (p, cs) = program_new h retain in Some (call cs (place p s)))"
| "step (construct_copy other) s =
     (if alive s other then
        let (p, cs) = program_copy \<lparr>m_program = handle_of s other\<rparr>
        in Some (call cs (place p s))
      else None)"
| "step (copy_assign this other) s = assign_copy this other s"
| "step (construct_move other) s =
     (if alive s other then
        let (p, other') = program_move \<lparr>m_program = handle_of s other\<rparr>
        in Some (set_handle other (m_program other') (place p s))
      else None)"
| "step (move_assign this other) s = assign_move this other s"
| "step (destroy this) s =
     (if alive s this then
        Some (call (program_destroy \<lparr>m_program = handle_of s this\<rparr>)
                (s\<lparr>objects := (objects s)[this := None]\<rparr>))
      else None)"

fun run :: "operation list \<Rightarrow> state \<Rightarrow> state option" where
  "run [] s = Some s"
| "run (x # xs) s = (case step x s of None \<Rightarrow> None | Some s' \<Rightarrow> run xs s')"

text \<open>The number of living objects that wrap the handle \<open>h\<close>.\<close>

definition holders :: "state \<Rightarrow> cl_program \<Rightarrow> nat" where
  "holders s h = count_list (objects s) (Some \<lparr>m_program = h\<rparr>)"

text \<open>The number of times a handle was adopted: constructed from without a retain.\<close>

definition adopted :: "operation list \<Rightarrow> cl_program \<Rightarrow> nat" where
  "adopted ops h = count_list ops (construct h False)"

subsection \<open>Building\<close>

text \<open>
  \<open>void build(const std::string &options)\<close>, in the default configuration
  (\<open>BOOST_COMPUTE_DEBUG_KERNEL_COMPILATION\<close> not defined). \<open>ret\<close> is the driver's answer to
  the call; an empty option string is passed as a null pointer. The result is the
  exception thrown or the normal return, with the call made.
\<close>

definition build ::
  "(cl_program \<Rightarrow> string option \<Rightarrow> cl_int) \<Rightarrow> program \<Rightarrow> string
     \<Rightarrow> (exception + unit) \<times> cl_call list" where
  "build driver p options =
     (let options_string = (if options \<noteq> [] then Some options else None);
          ret = driver (m_program p) options_string;
          cs = [clBuildProgram (m_program p) options_string]
      in if ret \<noteq> CL_SUCCESS then (Inl (opencl_error ret), cs) else (Inr (), cs))"

subsection \<open>Creation\<close>

text \<open>
  \<open>create_with_source\<close>: the driver answers \<open>clCreateProgramWithSource\<close> with a handle and
  the error code it stores through the last argument. The object is returned by value;
  the result is the object built by \<open>program(program_, false)\<close>.
\<close>

definition create_with_source ::
  "(cl_context \<Rightarrow> string \<Rightarrow> cl_program \<times> cl_int) \<Rightarrow> string \<Rightarrow> cl_context
     \<Rightarrow> (exception + program) \<times> cl_call list" where
  "create_with_source driver source context =
     (let (program', error) = driver context source;
          cs = [clCreateProgramWithSource context source]
      in if program' = 0 then (Inl (opencl_error error), cs)
         else let (p, cs') = program_new program' False in (Inr p, cs @ cs'))"

text \<open>
  \<open>create_with_binary(binary, binary_size, context)\<close>: the driver answers with a handle,
  the status of the binary and the error code. The binary is the \<open>binary_size\<close> bytes at
  \<open>binary\<close>, here a list of bytes. The device passed to the driver is read from the
  context first (\<open>context.get_device()\<close>, of the class \<open>context\<close>); the answer of the
  driver is taken for the context as it is.
\<close>

definition create_with_binary ::
  "(cl_context \<Rightarrow> 8 word list \<Rightarrow> cl_program \<times> cl_int \<times> cl_int) \<Rightarrow> 8 word list \<Rightarrow> cl_context
     \<Rightarrow> (exception + program) \<times> cl_call list" where
  "create_with_binary driver binary context =
     (let (program', binary_status, error) = driver context binary;
          cs = [clCreateProgramWithBinary context binary]
      in if program' = 0 then (Inl (opencl_error error), cs)
         else if binary_status \<noteq> CL_SUCCESS then (Inl (opencl_error binary_status), cs)
         else let (p, cs') = program_new program' False in (Inr p, cs @ cs'))"

subsection \<open>Queries\<close>

datatype cl_program_info =
    CL_PROGRAM_REFERENCE_COUNT
  | CL_PROGRAM_CONTEXT
  | CL_PROGRAM_NUM_DEVICES
  | CL_PROGRAM_DEVICES
  | CL_PROGRAM_SOURCE
  | CL_PROGRAM_BINARY_SIZES
  | CL_PROGRAM_BINARIES

text \<open>
  Modelled from the spec: \<open>detail::get_object_info\<close>
  (\<open>boost/compute/detail/get_object_info.hpp\<close> is not among the sources), the \<open>get_info\<close>
  boilerplate: it asks the query function of the driver about the object and returns the
  value read, as a \<open>T\<close>.
\<close>

definition get_object_info :: "('obj \<Rightarrow> 'info \<Rightarrow> 'T) \<Rightarrow> 'obj \<Rightarrow> 'info \<Rightarrow> 'T" where
  "get_object_info function object info = function object info"

text \<open>\<open>T get_info(cl_program_info info) const\<close>, with the driver's \<open>clGetProgramInfo\<close>.\<close>

definition get_info :: "(cl_program \<Rightarrow> cl_program_info \<Rightarrow> 'T) \<Rightarrow> program \<Rightarrow> cl_program_info \<Rightarrow> 'T" where
  "get_info clGetProgramInfo p info = get_object_info clGetProgramInfo (m_program p) info"

definition source :: "(cl_program \<Rightarrow> cl_program_info \<Rightarrow> string) \<Rightarrow> program \<Rightarrow> string" where
  "source clGetProgramInfo p = get_info clGetProgramInfo p CL_PROGRAM_SOURCE"

text \<open>
  Modelled from the spec: the class \<open>context\<close> (\<open>boost/compute/context.hpp\<close> is not among the
  sources), a wrapper of a \<open>cl_context\<close> handle of the same kind as \<open>program\<close>: its
  constructor from a handle wraps the handle and retains it when it is not null. The
  record is \<open>compute_context\<close>, the name \<open>context\<close> being a keyword.
\<close>

record compute_context =
  m_context :: cl_context

definition context_new :: "cl_context \<Rightarrow> compute_context \<times> cl_call list" where
  "context_new h = (\<lparr>m_context = h\<rparr>, if h \<noteq> 0 then [clRetainContext h] else [])"

definition get_context ::
  "(cl_program \<Rightarrow> cl_program_info \<Rightarrow> cl_context) \<Rightarrow> program \<Rightarrow> compute_context \<times> cl_call list" where
  "get_context clGetProgramInfo p = context_new (get_info clGetProgramInfo p CL_PROGRAM_CONTEXT)"

section \<open>\<open>stable_sort\<close>\<close>

subsection \<open>Device memory, ranges and the command queue\<close>

text \<open>
  The values sorted are those of an unsigned integer type of the device, a word of any
  width (\<open>uint_\<close> is \<open>32 word\<close>). An iterator is a position in the memory of the device, and
  the range \<open>[first, last)\<close> is the part of the memory from \<open>first\<close> up to \<open>last\<close>
  (written \<open>last'\<close>, \<open>last\<close> being a function on lists). The
  command queue is passed by reference to every algorithm: here it holds the memory of
  its device and the list of the routines that were run on it, in order.
\<close>

datatype routine = call_radix_sort | call_reverse | call_serial_insertion_sort

record 'a command_queue =
  memory :: "'a list"
  invoked :: "routine list"

definition slice :: "nat \<Rightarrow> nat \<Rightarrow> 'a list \<Rightarrow> 'a list" where
  "slice first last' mem = take (last' - first) (drop first mem)"

definition on_range :: "('a list \<Rightarrow> 'a list) \<Rightarrow> nat \<Rightarrow> nat \<Rightarrow> 'a list \<Rightarrow> 'a list" where
  "on_range f first last' mem = take first mem @ f (slice first last' mem) @ drop last' mem"

definition run_on_range ::
  "routine \<Rightarrow> ('a list \<Rightarrow> 'a list) \<Rightarrow> nat \<Rightarrow> nat \<Rightarrow> 'a command_queue \<Rightarrow> 'a command_queue" where
  "run_on_range r f first last' queue =
     queue\<lparr>memory := on_range f first last' (memory queue), invoked := invoked queue @ [r]\<rparr>"

subsection \<open>Comparators\<close>

text \<open>
  The type of the comparator decides the overload. \<open>compare_less\<close> and \<open>compare_greater\<close> are
  \<open>less<T>\<close> and \<open>greater<T>\<close> for the value type \<open>T\<close> of the range; every other function
  object is a \<open>compare_function\<close>.

  Modelled from the spec: \<open>less<T>\<close> and \<open>greater<T>\<close>
  (\<open>boost/compute/functional/operator.hpp\<close> is not among the sources), the function objects
  of the operators \<open><\<close> and \<open>>\<close>.
\<close>

datatype 'a compare = compare_less | compare_greater | compare_function "'a \<Rightarrow> 'a \<Rightarrow> bool"

fun compare_of :: "'a::len word compare \<Rightarrow> 'a word \<Rightarrow> 'a word \<Rightarrow> bool" where
  "compare_of compare_less a b = (a < b)"
| "compare_of compare_greater a b = (a > b)"
| "compare_of (compare_function f) a b = f a b"

text \<open>
  What a comparator has to be for a sort: a strict weak order, that is irreflexive and
  transitive, with a transitive equivalence (neither before the other).
\<close>

definition equivalent :: "('a \<Rightarrow> 'a \<Rightarrow> bool) \<Rightarrow> 'a \<Rightarrow> 'a \<Rightarrow> bool" where
  "equivalent compare a b = (\<not> compare a b \<and> \<not> compare b a)"

definition strict_weak_order :: "('a \<Rightarrow> 'a \<Rightarrow> bool) \<Rightarrow> bool" where
  "strict_weak_order compare =
     ((\<forall>a. \<not> compare a a)
      \<and> (\<forall>a b c. compare a b \<longrightarrow> compare b c \<longrightarrow> compare a c)
      \<and> (\<forall>a b c. equivalent compare a b \<longrightarrow> equivalent compare b c \<longrightarrow> equivalent compare a c))"


subsection \<open>The sorting routines\<close>

text \<open>
  Modelled from the spec: \<open>detail::serial_insertion_sort\<close>
  (\<open>boost/compute/algorithm/detail/insertion_sort.hpp\<close> is not among the sources), the
  insertion-sort kernel. It takes the values of the range from left to right and moves
  each one down from the end of the part already sorted, past every value that it is
  before according to \<open>compare\<close>.
\<close>

function insert_value :: "('a \<Rightarrow> 'a \<Rightarrow> bool) \<Rightarrow> 'a \<Rightarrow> 'a list \<Rightarrow> 'a list" where
  "insert_value compare v data =
     (if data \<noteq> [] \<and> compare v (last data)
      then insert_value compare v (butlast data) @ [last data]
      else data @ [v])"
  by pat_completeness auto
termination
  by (relation "measure (\<lambda>(compare, v, data). length data)") auto

definition insertion_sort :: "('a \<Rightarrow> 'a \<Rightarrow> bool) \<Rightarrow> 'a list \<Rightarrow> 'a list" where
  "insertion_sort compare xs = foldl (\<lambda>data v. insert_value compare v data) [] xs"

definition serial_insertion_sort ::
  "nat \<Rightarrow> nat \<Rightarrow> ('a \<Rightarrow> 'a \<Rightarrow> bool) \<Rightarrow> 'a command_queue \<Rightarrow> 'a command_queue" where
  "serial_insertion_sort first last' compare queue =
     run_on_range call_serial_insertion_sort (insertion_sort compare) first last' queue"

text \<open>
  Modelled from the spec: \<open>detail::radix_sort\<close>
  (\<open>boost/compute/algorithm/detail/radix_sort.hpp\<close> is not among the sources), the
  radix-sort kernel, which sorts in ascending order. It makes one pass for each bit of
  the values, from the least significant one: a pass keeps the order of the values
  whose bit is the same and puts those whose bit is clear before the others.
\<close>

definition radix_pass :: "nat \<Rightarrow> 'a::len word list \<Rightarrow> 'a word list" where
  "radix_pass k xs = filter (\<lambda>x. \<not> bit x k) xs @ filter (\<lambda>x. bit x k) xs"

definition radix_passes :: "nat \<Rightarrow> 'a::len word list \<Rightarrow> 'a word list" where
  "radix_passes n xs = fold radix_pass [0..<n] xs"

definition radix_sort_values :: "'a::len word list \<Rightarrow> 'a word list" where
  "radix_sort_values xs = radix_passes LENGTH('a) xs"

definition radix_sort :: "nat \<Rightarrow> nat \<Rightarrow> 'a::len word command_queue \<Rightarrow> 'a word command_queue" where
  "radix_sort first last' queue = run_on_range call_radix_sort radix_sort_values first last' queue"

text \<open>
  Modelled from the spec: \<open>reverse\<close> (\<open>boost/compute/algorithm/reverse.hpp\<close> is not among the
  sources), which reverses the order of the values of the range.
\<close>

definition reverse :: "nat \<Rightarrow> nat \<Rightarrow> 'a command_queue \<Rightarrow> 'a command_queue" where
  "reverse first last' queue = run_on_range call_reverse rev first last' queue"

subsection \<open>The dispatch\<close>

text \<open>
  The three overloads of \<open>detail::dispatch_stable_sort\<close>. The second and the third take
  part in overload resolution only for \<open>buffer_iterator<T>\<close> with
  \<open>is_radix_sortable<T>::value\<close> true and a comparator of type \<open>less<T>\<close> or \<open>greater<T>\<close>,
  and then they are more specialised than the first; in every other case the first is the
  only candidate. \<open>is_radix_sortable\<close> is declared with \<open>radix_sort\<close>; its value for \<open>T\<close> is
  the parameter \<open>radix_sortable\<close>.
\<close>

datatype iterator_type = buffer_iterator | other_iterator

fun dispatch_stable_sort ::
  "iterator_type \<Rightarrow> bool \<Rightarrow> nat \<Rightarrow> nat \<Rightarrow> 'a::len word compare
     \<Rightarrow> 'a word command_queue \<Rightarrow> 'a word command_queue" where
  "dispatch_stable_sort buffer_iterator True first last' compare_less queue =
     radix_sort first last' queue"
| "dispatch_stable_sort buffer_iterator True first last' compare_greater queue =
     reverse first last' (radix_sort first last' queue)"
| "dispatch_stable_sort iterator radix_sortable first last' compare queue =
     serial_insertion_sort first last' (compare_of compare) queue"

text \<open>\<open>stable_sort(first, last, compare, queue)\<close>\<close>

definition stable_sort ::
  "iterator_type \<Rightarrow> bool \<Rightarrow> nat \<Rightarrow> nat \<Rightarrow> 'a::len word compare
     \<Rightarrow> 'a word command_queue \<Rightarrow> 'a word command_queue" where
  "stable_sort iterator radix_sortable first last' compare queue =
     dispatch_stable_sort iterator radix_sortable first last' compare queue"

text \<open>\<open>stable_sort(first, last, queue)\<close>, the overload without a comparator.\<close>

definition stable_sort_default ::
  "iterator_type \<Rightarrow> bool \<Rightarrow> nat \<Rightarrow> nat \<Rightarrow> 'a::len word command_queue \<Rightarrow> 'a word command_queue" where
  "stable_sort_default iterator radix_sortable first last' queue =
     (let less = compare_less in stable_sort iterator radix_sortable first last' less queue)"


section \<open>Theorems\<close>

subsection \<open>C9: \<open>is_vector_type\<close>\<close>

text \<open>
  C9. For every type \<open>T\<close> (and whatever \<open>vector_size\<close> is), \<open>is_vector_type<T>::value\<close> is
  true if and only if \<open>vector_size<T>::value\<close> is not 1; the scalar type \<open>int_\<close> (\<open>scalar int_t\<close>) classifies as
  false and the four-component type \<open>float4_\<close> (\<open>float4\<close>) as true.
\<close>

theorem is_vector_type_iff:
  "(is_vector_type vsize T \<longleftrightarrow> vsize T \<noteq> 1)
   \<and> \<not> is_vector_type vector_size (scalar int_t)
   \<and> is_vector_type vector_size float4"
  by (simp add: is_vector_type_def float4_def)

theorem is_vector_type_iff_witness:
  "(is_vector_type vector_size (vector double_t N16) \<longleftrightarrow> (16::nat) \<noteq> 1)
   \<and> \<not> is_vector_type vector_size (scalar int_t)
   \<and> is_vector_type vector_size float4"
  using is_vector_type_iff [of vector_size "vector double_t N16"] by simp


subsection \<open>Reference counting: auxiliary facts\<close>

lemma count_list_update:
  "i < length xs \<Longrightarrow>
   int (count_list (xs[i := v]) y) =
     int (count_list xs y) - (if xs ! i = y then 1 else 0) + (if v = y then 1 else 0)"
proof (induction xs arbitrary: i)
  case Nil
  then show ?case by simp
next
  case (Cons x xs)
  show ?case
  proof (cases i)
    case 0
    then show ?thesis by simp
  next
    case (Suc j)
    with Cons.prems have "j < length xs" by simp
    from Cons.IH [OF this] Suc show ?thesis by (auto split: if_splits)
  qed
qed

lemma count_change_append:
  "count_change (cs @ ds) h = count_change cs h + count_change ds h"
  by (simp add: count_change_def)

lemma count_change_retain_if:
  "count_change (retain_if g) h = (if g = h \<and> h \<noteq> 0 then 1 else 0)"
  by (simp add: count_change_def retain_if_def)

lemma count_change_release_if:
  "count_change (release_if g) h = (if g = h \<and> h \<noteq> 0 then - 1 else 0)"
  by (simp add: count_change_def release_if_def)

lemma holders_set_handle:
  "alive s a \<Longrightarrow>
   int (holders (set_handle a g s) h) =
     int (holders s h) - (if handle_of s a = h then 1 else 0) + (if g = h then 1 else 0)"
  by (auto simp: holders_def set_handle_def alive_def handle_of_def count_list_update)

lemma holders_place: "holders (place p s) h = holders s h + (if m_program p = h then 1 else 0)"
  by (cases p) (auto simp: holders_def place_def)

lemma holders_call [simp]: "holders (call cs s) h = holders s h"
  by (simp add: holders_def call_def)

lemma calls_call [simp]: "calls (call cs s) = calls s @ cs"
  by (simp add: call_def)

lemma calls_set_handle [simp]: "calls (set_handle a g s) = calls s"
  by (simp add: set_handle_def)

lemma calls_place [simp]: "calls (place p s) = calls s"
  by (simp add: place_def)

lemma handle_of_call [simp]: "handle_of (call cs s) a = handle_of s a"
  by (simp add: handle_of_def call_def)

lemma alive_call [simp]: "alive (call cs s) a = alive s a"
  by (simp add: alive_def call_def)

lemma alive_set_handle [simp]: "alive s b \<Longrightarrow> alive (set_handle a g s) b"
  by (cases "a = b") (auto simp: alive_def set_handle_def)

lemma handle_of_set_handle:
  "a < length (objects s) \<Longrightarrow> handle_of (set_handle a g s) b = (if b = a then g else handle_of s b)"
  by (auto simp: handle_of_def set_handle_def nth_list_update)

lemma alive_place [simp]: "alive s a \<Longrightarrow> alive (place p s) a"
  by (auto simp: alive_def place_def nth_append)

lemma handle_of_place: "a < length (objects s) \<Longrightarrow> handle_of (place p s) a = handle_of s a"
  by (auto simp: handle_of_def place_def nth_append)


lemma handle_of_set_handle_alive:
  "alive s a \<Longrightarrow> handle_of (set_handle a g s) b = (if b = a then g else handle_of s b)"
  by (simp add: handle_of_set_handle alive_def)

lemma handle_of_place_alive: "alive s a \<Longrightarrow> handle_of (place p s) a = handle_of s a"
  by (simp add: handle_of_place alive_def)

lemma assign_copy_result:
  assumes "alive s this" and "alive s other" and "this \<noteq> other"
  shows "assign_copy this other s =
    Some (call (retain_if (handle_of s other))
           (set_handle this (handle_of s other) (call (release_if (handle_of s this)) s)))"
  using assms by (simp add: assign_copy_def Let_def handle_of_set_handle_alive)

lemma assign_move_result:
  assumes "alive s this" and "alive s other"
  shows "assign_move this other s =
    Some (set_handle other 0
           (set_handle this (handle_of s other) (call (release_if (handle_of s this)) s)))"
  using assms by (simp add: assign_move_def Let_def)

lemma assign_copy_balance:
  assumes "assign_copy this other s = Some s'" and "h \<noteq> 0"
  shows "count_change (calls s') h - int (holders s' h) = count_change (calls s) h - int (holders s h)"
proof -
  from assms(1) have al: "alive s this" "alive s other"
    by (auto simp: assign_copy_def split: if_splits)
  show ?thesis
  proof (cases "this = other")
    case True
    with assms(1) al show ?thesis by (simp add: assign_copy_def)
  next
    case False
    from assms(1) assign_copy_result [OF al False] have
      "s' = call (retain_if (handle_of s other))
           (set_handle this (handle_of s other) (call (release_if (handle_of s this)) s))"
      by simp
    with al assms(2) show ?thesis
      by (simp add: count_change_append count_change_retain_if count_change_release_if
          holders_set_handle)
  qed
qed

lemma assign_move_balance:
  assumes "assign_move this other s = Some s'" and "h \<noteq> 0"
  shows "count_change (calls s') h - int (holders s' h) = count_change (calls s) h - int (holders s h)"
proof -
  from assms(1) have al: "alive s this" "alive s other"
    by (auto simp: assign_move_def split: if_splits)
  from assms(1) assign_move_result [OF al] have
    "s' = set_handle other 0
           (set_handle this (handle_of s other) (call (release_if (handle_of s this)) s))"
    by simp
  with al assms(2) show ?thesis
    by (simp add: count_change_append count_change_release_if
        holders_set_handle handle_of_set_handle_alive)
qed

lemma step_balance:
  assumes "step x s = Some s'" and "h \<noteq> 0"
  shows "count_change (calls s') h + int (adopted [x] h) - int (holders s' h)
         = count_change (calls s) h - int (holders s h)"
proof (cases x)
  case construct_null
  with assms show ?thesis
    by (auto simp: adopted_def holders_place program_null_def)
next
  case (construct g r)
  with assms show ?thesis
    by (auto simp: adopted_def holders_place program_new_def count_change_append count_change_def)
next
  case (construct_copy other)
  with assms show ?thesis
    by (auto simp: adopted_def holders_place program_copy_def count_change_append
        count_change_retain_if split: if_splits)
next
  case (copy_assign this other)
  with assms assign_copy_balance [of this other s s' h] show ?thesis
    by (simp add: adopted_def)
next
  case (construct_move other)
  with assms show ?thesis
    by (auto simp: adopted_def program_move_def holders_set_handle holders_place handle_of_place_alive
        split: if_splits)
next
  case (move_assign this other)
  with assms assign_move_balance [of this other s s' h] show ?thesis
    by (simp add: adopted_def)
next
  case (destroy this)
  with assms show ?thesis
    by (auto simp: adopted_def program_destroy_def count_change_append
        count_change_release_if holders_def count_list_update alive_def handle_of_def call_def
        split: if_splits option.splits)
qed

lemma adopted_Cons: "adopted (x # xs) h = adopted [x] h + adopted xs h"
  by (simp add: adopted_def)

lemma run_balance:
  assumes "run ops s = Some s'" and "h \<noteq> 0"
  shows "count_change (calls s') h + int (adopted ops h) - int (holders s' h)
         = count_change (calls s) h - int (holders s h)"
  using assms
proof (induction ops arbitrary: s)
  case Nil
  then show ?case by (simp add: adopted_def)
next
  case (Cons x xs)
  from Cons.prems(1) obtain s1 where s1: "step x s = Some s1" and r: "run xs s1 = Some s'"
    by (auto split: option.splits)
  from Cons.IH [OF r \<open>h \<noteq> 0\<close>] step_balance [OF s1 \<open>h \<noteq> 0\<close>] show ?case
    by (simp add: adopted_Cons [of x xs])
qed


lemma step_no_null:
  assumes "step x s = Some s'"
    and "clRetainProgram 0 \<notin> set (calls s) \<and> clReleaseProgram 0 \<notin> set (calls s)"
  shows "clRetainProgram 0 \<notin> set (calls s') \<and> clReleaseProgram 0 \<notin> set (calls s')"
  using assms
  by (cases x)
    (auto simp: program_new_def program_copy_def program_move_def
      program_destroy_def assign_copy_def assign_move_def Let_def retain_if_def release_if_def
      split: if_splits)

lemma run_no_null:
  assumes "run ops s = Some s'"
    and "clRetainProgram 0 \<notin> set (calls s) \<and> clReleaseProgram 0 \<notin> set (calls s)"
  shows "clRetainProgram 0 \<notin> set (calls s') \<and> clReleaseProgram 0 \<notin> set (calls s')"
  using assms
proof (induction ops arbitrary: s)
  case Nil
  then show ?case by simp
next
  case (Cons x xs)
  from Cons.prems(1) obtain s1 where s1: "step x s = Some s1" and r: "run xs s1 = Some s'"
    by (auto split: option.splits)
  from step_no_null [OF s1 Cons.prems(2)] Cons.IH [OF r] show ?case by simp
qed

lemma run_init_balance:
  assumes "run ops init = Some s" and "h \<noteq> 0"
  shows "count_change (calls s) h + int (adopted ops h) = int (holders s h)"
  using run_balance [OF assms] by (simp add: init_def holders_def count_change_def)

lemma step_construct:
  "step (construct h True) s = Some s' \<Longrightarrow>
     calls s' = calls s @ (if h \<noteq> 0 then [clRetainProgram h] else [])
     \<and> handle_of s' (length (objects s)) = h"
  by (auto simp: program_new_def handle_of_def place_def call_def)

lemma step_construct_copy:
  "step (construct_copy other) s = Some s' \<Longrightarrow>
     calls s' = calls s @
        (if handle_of s other \<noteq> 0 then [clRetainProgram (handle_of s other)] else [])
     \<and> handle_of s' (length (objects s)) = handle_of s other"
  by (auto simp: program_copy_def retain_if_def handle_of_def place_def call_def split: if_splits)

lemma step_copy_assign:
  "step (copy_assign this other) s = Some s' \<Longrightarrow> this \<noteq> other \<Longrightarrow>
     calls s' = calls s @
        (if handle_of s this \<noteq> 0 then [clReleaseProgram (handle_of s this)] else []) @
        (if handle_of s other \<noteq> 0 then [clRetainProgram (handle_of s other)] else [])
     \<and> handle_of s' this = handle_of s other"
proof -
  assume st: "step (copy_assign this other) s = Some s'" and ne: "this \<noteq> other"
  then have al: "alive s this" "alive s other"
    by (auto simp: assign_copy_def split: if_splits)
  from st assign_copy_result [OF al ne] al show ?thesis
    by (auto simp: retain_if_def release_if_def handle_of_set_handle_alive)
qed

lemma step_construct_move:
  "step (construct_move other) s = Some s' \<Longrightarrow>
     calls s' = calls s \<and> handle_of s' (length (objects s)) = handle_of s other
     \<and> handle_of s' other = 0"
  by (auto simp: program_move_def handle_of_def place_def set_handle_def alive_def nth_append
      split: if_splits)

lemma step_move_assign:
  "step (move_assign this other) s = Some s' \<Longrightarrow>
     calls s' = calls s @
        (if handle_of s this \<noteq> 0 then [clReleaseProgram (handle_of s this)] else [])
     \<and> handle_of s' other = 0
     \<and> (if this = other then handle_of s' this = 0 else handle_of s' this = handle_of s other)"
proof -
  assume st: "step (move_assign this other) s = Some s'"
  then have al: "alive s this" "alive s other"
    by (auto simp: assign_move_def split: if_splits)
  from st assign_move_result [OF al] al show ?thesis
    by (auto simp: release_if_def handle_of_set_handle_alive)
qed

lemma step_destroy:
  "step (destroy this) s = Some s' \<Longrightarrow>
     calls s' = calls s @
        (if handle_of s this \<noteq> 0 then [clReleaseProgram (handle_of s this)] else [])
     \<and> \<not> alive s' this"
  by (auto simp: program_destroy_def release_if_def alive_def call_def split: if_splits)


subsection \<open>C4: the reference count stays in balance\<close>

text \<open>
  Move assignment does change a count: it releases the handle that the target held
  before, and when that is the handle being moved in
  (two objects that wrap the same handle, or an object moved to itself), the count of the
  moved handle goes down by one. Below, after \<open>program a(5); program b(a);\<close> the assignment
  \<open>a = std::move(b)\<close> calls \<open>clReleaseProgram(5)\<close>.
\<close>

theorem move_assign_releases_moved_handle:
  "run [construct 5 True, construct_copy 0] init
     = Some \<lparr>objects = [Some \<lparr>m_program = 5\<rparr>, Some \<lparr>m_program = 5\<rparr>],
              calls = [clRetainProgram 5, clRetainProgram 5]\<rparr>
   \<and> step (move_assign 0 1)
        \<lparr>objects = [Some \<lparr>m_program = 5\<rparr>, Some \<lparr>m_program = 5\<rparr>],
         calls = [clRetainProgram 5, clRetainProgram 5]\<rparr>
     = Some \<lparr>objects = [Some \<lparr>m_program = 5\<rparr>, Some \<lparr>m_program = 0\<rparr>],
              calls = [clRetainProgram 5, clRetainProgram 5, clReleaseProgram 5]\<rparr>
   \<and> count_change [clRetainProgram 5, clRetainProgram 5, clReleaseProgram 5] 5
     = count_change [clRetainProgram 5, clRetainProgram 5] 5 - 1"
  by code_simp

text \<open>
  C4, amended. The retaining constructor and copy construction each retain a non-null
  handle once; copy assignment between two objects releases the old handle and retains
  the new one; move construction makes no call, gives the handle to the new object and
  leaves the source null; move assignment releases the handle its target held, makes no
  other call, leaves the source null and, between two objects, gives the target the
  source's handle; destruction releases a non-null handle once. A null handle is never
  retained or released. Over any sequence of these operations from the empty store, for
  every non-null handle the retains, plus the adoptions by \<open>program(h, false)\<close>, less
  the releases, number the living objects that wrap it: with no adoption and every
  object destroyed, the retains and the releases are as many.
\<close>

theorem program_reference_balance:
  "(\<forall>h s s'. step (construct h True) s = Some s' \<longrightarrow>
       calls s' = calls s @ (if h \<noteq> 0 then [clRetainProgram h] else [])
       \<and> handle_of s' (length (objects s)) = h)
   \<and> (\<forall>other s s'. step (construct_copy other) s = Some s' \<longrightarrow>
       calls s' = calls s @
          (if handle_of s other \<noteq> 0 then [clRetainProgram (handle_of s other)] else [])
       \<and> handle_of s' (length (objects s)) = handle_of s other)
   \<and> (\<forall>this other s s'. step (copy_assign this other) s = Some s' \<longrightarrow> this \<noteq> other \<longrightarrow>
       calls s' = calls s @
          (if handle_of s this \<noteq> 0 then [clReleaseProgram (handle_of s this)] else []) @
          (if handle_of s other \<noteq> 0 then [clRetainProgram (handle_of s other)] else [])
       \<and> handle_of s' this = handle_of s other)
   \<and> (\<forall>other s s'. step (construct_move other) s = Some s' \<longrightarrow>
       calls s' = calls s \<and> handle_of s' (length (objects s)) = handle_of s other
       \<and> handle_of s' other = 0)
   \<and> (\<forall>this other s s'. step (move_assign this other) s = Some s' \<longrightarrow>
       calls s' = calls s @
          (if handle_of s this \<noteq> 0 then [clReleaseProgram (handle_of s this)] else [])
       \<and> handle_of s' other = 0
       \<and> (if this = other then handle_of s' this = 0
           else handle_of s' this = handle_of s other))
   \<and> (\<forall>this s s'. step (destroy this) s = Some s' \<longrightarrow>
       calls s' = calls s @
          (if handle_of s this \<noteq> 0 then [clReleaseProgram (handle_of s this)] else [])
       \<and> \<not> alive s' this)
   \<and> (\<forall>ops s. run ops init = Some s \<longrightarrow>
       clRetainProgram 0 \<notin> set (calls s) \<and> clReleaseProgram 0 \<notin> set (calls s)
       \<and> (\<forall>h. h \<noteq> 0 \<longrightarrow>
             count_change (calls s) h + int (adopted ops h) = int (holders s h))
       \<and> (\<forall>h. h \<noteq> 0 \<longrightarrow> adopted ops h = 0 \<longrightarrow> holders s h = 0 \<longrightarrow>
             count_list (calls s) (clRetainProgram h)
               = count_list (calls s) (clReleaseProgram h)))"
proof (intro conjI allI impI)
  fix ops s
  assume r: "run ops init = Some s"
  from run_no_null [OF r] show "clRetainProgram 0 \<notin> set (calls s)"
    and "clReleaseProgram 0 \<notin> set (calls s)"
    by (simp_all add: init_def)
  fix h :: cl_program
  assume h: "h \<noteq> 0"
  from run_init_balance [OF r h]
  show "count_change (calls s) h + int (adopted ops h) = int (holders s h)" .
  assume "adopted ops h = 0" and "holders s h = 0"
  with run_init_balance [OF r h]
  show "count_list (calls s) (clRetainProgram h) = count_list (calls s) (clReleaseProgram h)"
    by (simp add: count_change_def)
qed (use step_construct step_construct_copy step_copy_assign step_construct_move
      step_move_assign step_destroy in blast)+

theorem program_reference_balance_witness:
  "step (construct 5 True) init = Some \<lparr>objects = [Some \<lparr>m_program = 5\<rparr>], calls = [clRetainProgram 5]\<rparr>
   \<and> calls \<lparr>objects = [Some \<lparr>m_program = 5\<rparr>], calls = [clRetainProgram 5]\<rparr> = [clRetainProgram 5]
   \<and> handle_of \<lparr>objects = [Some \<lparr>m_program = 5\<rparr>], calls = [clRetainProgram 5]\<rparr> 0 = 5
   \<and> step (construct_copy 0) \<lparr>objects = [Some \<lparr>m_program = 5\<rparr>], calls = [clRetainProgram 5]\<rparr> = Some \<lparr>objects = [Some \<lparr>m_program = 5\<rparr>, Some \<lparr>m_program = 5\<rparr>], calls = [clRetainProgram 5, clRetainProgram 5]\<rparr>
   \<and> handle_of \<lparr>objects = [Some \<lparr>m_program = 5\<rparr>, Some \<lparr>m_program = 5\<rparr>], calls = [clRetainProgram 5, clRetainProgram 5]\<rparr> 1 = 5
   \<and> step (copy_assign 2 0) \<lparr>objects = [Some \<lparr>m_program = 5\<rparr>, Some \<lparr>m_program = 5\<rparr>, Some \<lparr>m_program = 7\<rparr>], calls = [clRetainProgram 5, clRetainProgram 5, clRetainProgram 7]\<rparr> = Some \<lparr>objects = [Some \<lparr>m_program = 5\<rparr>, Some \<lparr>m_program = 5\<rparr>, Some \<lparr>m_program = 5\<rparr>], calls = [clRetainProgram 5, clRetainProgram 5, clRetainProgram 7, clReleaseProgram 7, clRetainProgram 5]\<rparr>
   \<and> (2::nat) \<noteq> 0
   \<and> handle_of \<lparr>objects = [Some \<lparr>m_program = 5\<rparr>, Some \<lparr>m_program = 5\<rparr>, Some \<lparr>m_program = 5\<rparr>], calls = [clRetainProgram 5, clRetainProgram 5, clRetainProgram 7, clReleaseProgram 7, clRetainProgram 5]\<rparr> 2 = 5
   \<and> step (construct_move 1) \<lparr>objects = [Some \<lparr>m_program = 5\<rparr>, Some \<lparr>m_program = 5\<rparr>, Some \<lparr>m_program = 5\<rparr>], calls = [clRetainProgram 5, clRetainProgram 5, clRetainProgram 7, clReleaseProgram 7, clRetainProgram 5]\<rparr> = Some \<lparr>objects = [Some \<lparr>m_program = 5\<rparr>, Some \<lparr>m_program = 0\<rparr>, Some \<lparr>m_program = 5\<rparr>, Some \<lparr>m_program = 5\<rparr>], calls = [clRetainProgram 5, clRetainProgram 5, clRetainProgram 7, clReleaseProgram 7, clRetainProgram 5]\<rparr>
   \<and> handle_of \<lparr>objects = [Some \<lparr>m_program = 5\<rparr>, Some \<lparr>m_program = 0\<rparr>, Some \<lparr>m_program = 5\<rparr>, Some \<lparr>m_program = 5\<rparr>], calls = [clRetainProgram 5, clRetainProgram 5, clRetainProgram 7, clReleaseProgram 7, clRetainProgram 5]\<rparr> 3 = 5
   \<and> handle_of \<lparr>objects = [Some \<lparr>m_program = 5\<rparr>, Some \<lparr>m_program = 0\<rparr>, Some \<lparr>m_program = 5\<rparr>, Some \<lparr>m_program = 5\<rparr>], calls = [clRetainProgram 5, clRetainProgram 5, clRetainProgram 7, clReleaseProgram 7, clRetainProgram 5]\<rparr> 1 = 0
   \<and> step (move_assign 1 2) \<lparr>objects = [Some \<lparr>m_program = 5\<rparr>, Some \<lparr>m_program = 0\<rparr>, Some \<lparr>m_program = 5\<rparr>, Some \<lparr>m_program = 5\<rparr>], calls = [clRetainProgram 5, clRetainProgram 5, clRetainProgram 7, clReleaseProgram 7, clRetainProgram 5]\<rparr> = Some \<lparr>objects = [Some \<lparr>m_program = 5\<rparr>, Some \<lparr>m_program = 5\<rparr>, Some \<lparr>m_program = 0\<rparr>, Some \<lparr>m_program = 5\<rparr>], calls = [clRetainProgram 5, clRetainProgram 5, clRetainProgram 7, clReleaseProgram 7, clRetainProgram 5]\<rparr>
   \<and> handle_of \<lparr>objects = [Some \<lparr>m_program = 5\<rparr>, Some \<lparr>m_program = 5\<rparr>, Some \<lparr>m_program = 0\<rparr>, Some \<lparr>m_program = 5\<rparr>], calls = [clRetainProgram 5, clRetainProgram 5, clRetainProgram 7, clReleaseProgram 7, clRetainProgram 5]\<rparr> 2 = 0
   \<and> handle_of \<lparr>objects = [Some \<lparr>m_program = 5\<rparr>, Some \<lparr>m_program = 5\<rparr>, Some \<lparr>m_program = 0\<rparr>, Some \<lparr>m_program = 5\<rparr>], calls = [clRetainProgram 5, clRetainProgram 5, clRetainProgram 7, clReleaseProgram 7, clRetainProgram 5]\<rparr> 1 = 5
   \<and> step (destroy 0) \<lparr>objects = [Some \<lparr>m_program = 5\<rparr>, Some \<lparr>m_program = 5\<rparr>, Some \<lparr>m_program = 0\<rparr>, Some \<lparr>m_program = 5\<rparr>], calls = [clRetainProgram 5, clRetainProgram 5, clRetainProgram 7, clReleaseProgram 7, clRetainProgram 5]\<rparr> = Some \<lparr>objects = [None, Some \<lparr>m_program = 5\<rparr>, Some \<lparr>m_program = 0\<rparr>, Some \<lparr>m_program = 5\<rparr>], calls = [clRetainProgram 5, clRetainProgram 5, clRetainProgram 7, clReleaseProgram 7, clRetainProgram 5, clReleaseProgram 5]\<rparr>
   \<and> \<not> alive \<lparr>objects = [None, Some \<lparr>m_program = 5\<rparr>, Some \<lparr>m_program = 0\<rparr>, Some \<lparr>m_program = 5\<rparr>], calls = [clRetainProgram 5, clRetainProgram 5, clRetainProgram 7, clReleaseProgram 7, clRetainProgram 5, clReleaseProgram 5]\<rparr> 0
   \<and> run [construct 5 True, construct_copy 0, construct 7 True, copy_assign 2 0, construct_move 1, move_assign 1 2, destroy 0, destroy 1, destroy 2, destroy 3] init = Some \<lparr>objects = [None, None, None, None], calls = [clRetainProgram 5, clRetainProgram 5, clRetainProgram 7, clReleaseProgram 7, clRetainProgram 5, clReleaseProgram 5, clReleaseProgram 5, clReleaseProgram 5]\<rparr>
   \<and> clRetainProgram 0 \<notin> set (calls \<lparr>objects = [None, None, None, None], calls = [clRetainProgram 5, clRetainProgram 5, clRetainProgram 7, clReleaseProgram 7, clRetainProgram 5, clReleaseProgram 5, clReleaseProgram 5, clReleaseProgram 5]\<rparr>)
   \<and> clReleaseProgram 0 \<notin> set (calls \<lparr>objects = [None, None, None, None], calls = [clRetainProgram 5, clRetainProgram 5, clRetainProgram 7, clReleaseProgram 7, clRetainProgram 5, clReleaseProgram 5, clReleaseProgram 5, clReleaseProgram 5]\<rparr>)
   \<and> (5::nat) \<noteq> 0
   \<and> count_change (calls \<lparr>objects = [None, None, None, None], calls = [clRetainProgram 5, clRetainProgram 5, clRetainProgram 7, clReleaseProgram 7, clRetainProgram 5, clReleaseProgram 5, clReleaseProgram 5, clReleaseProgram 5]\<rparr>) 5 + int (adopted [construct 5 True, construct_copy 0, construct 7 True, copy_assign 2 0, construct_move 1, move_assign 1 2, destroy 0, destroy 1, destroy 2, destroy 3] 5) = int (holders \<lparr>objects = [None, None, None, None], calls = [clRetainProgram 5, clRetainProgram 5, clRetainProgram 7, clReleaseProgram 7, clRetainProgram 5, clReleaseProgram 5, clReleaseProgram 5, clReleaseProgram 5]\<rparr> 5)
   \<and> adopted [construct 5 True, construct_copy 0, construct 7 True, copy_assign 2 0, construct_move 1, move_assign 1 2, destroy 0, destroy 1, destroy 2, destroy 3] 5 = 0
   \<and> holders \<lparr>objects = [None, None, None, None], calls = [clRetainProgram 5, clRetainProgram 5, clRetainProgram 7, clReleaseProgram 7, clRetainProgram 5, clReleaseProgram 5, clReleaseProgram 5, clReleaseProgram 5]\<rparr> 5 = 0
   \<and> count_list (calls \<lparr>objects = [None, None, None, None], calls = [clRetainProgram 5, clRetainProgram 5, clRetainProgram 7, clReleaseProgram 7, clRetainProgram 5, clReleaseProgram 5, clReleaseProgram 5, clReleaseProgram 5]\<rparr>) (clRetainProgram 5) = count_list (calls \<lparr>objects = [None, None, None, None], calls = [clRetainProgram 5, clRetainProgram 5, clRetainProgram 7, clReleaseProgram 7, clRetainProgram 5, clReleaseProgram 5, clReleaseProgram 5, clReleaseProgram 5]\<rparr>) (clReleaseProgram 5)"
proof -
  note T = program_reference_balance
  have h1: "step (construct 5 True) init = Some \<lparr>objects = [Some \<lparr>m_program = 5\<rparr>], calls = [clRetainProgram 5]\<rparr>"
    by code_simp
  from T [THEN conjunct1, rule_format, OF h1]
  have c1: "calls \<lparr>objects = [Some \<lparr>m_program = 5\<rparr>], calls = [clRetainProgram 5]\<rparr> = [clRetainProgram 5] \<and> handle_of \<lparr>objects = [Some \<lparr>m_program = 5\<rparr>], calls = [clRetainProgram 5]\<rparr> 0 = 5"
    by (simp add: init_def)
  have h2: "step (construct_copy 0) \<lparr>objects = [Some \<lparr>m_program = 5\<rparr>], calls = [clRetainProgram 5]\<rparr> = Some \<lparr>objects = [Some \<lparr>m_program = 5\<rparr>, Some \<lparr>m_program = 5\<rparr>], calls = [clRetainProgram 5, clRetainProgram 5]\<rparr>"
    by code_simp
  from T [THEN conjunct2, THEN conjunct1, rule_format, OF h2]
  have c2: "handle_of \<lparr>objects = [Some \<lparr>m_program = 5\<rparr>, Some \<lparr>m_program = 5\<rparr>], calls = [clRetainProgram 5, clRetainProgram 5]\<rparr> 1 = 5"
    by (simp add: handle_of_def)
  have h3: "step (copy_assign 2 0) \<lparr>objects = [Some \<lparr>m_program = 5\<rparr>, Some \<lparr>m_program = 5\<rparr>, Some \<lparr>m_program = 7\<rparr>], calls = [clRetainProgram 5, clRetainProgram 5, clRetainProgram 7]\<rparr> = Some \<lparr>objects = [Some \<lparr>m_program = 5\<rparr>, Some \<lparr>m_program = 5\<rparr>, Some \<lparr>m_program = 5\<rparr>], calls = [clRetainProgram 5, clRetainProgram 5, clRetainProgram 7, clReleaseProgram 7, clRetainProgram 5]\<rparr>"
    by code_simp
  have n3: "(2::nat) \<noteq> 0" by simp
  from T [THEN conjunct2, THEN conjunct2, THEN conjunct1, rule_format, OF h3 n3]
  have c3: "handle_of \<lparr>objects = [Some \<lparr>m_program = 5\<rparr>, Some \<lparr>m_program = 5\<rparr>, Some \<lparr>m_program = 5\<rparr>], calls = [clRetainProgram 5, clRetainProgram 5, clRetainProgram 7, clReleaseProgram 7, clRetainProgram 5]\<rparr> 2 = 5"
    by (simp add: handle_of_def)
  have h4: "step (construct_move 1) \<lparr>objects = [Some \<lparr>m_program = 5\<rparr>, Some \<lparr>m_program = 5\<rparr>, Some \<lparr>m_program = 5\<rparr>], calls = [clRetainProgram 5, clRetainProgram 5, clRetainProgram 7, clReleaseProgram 7, clRetainProgram 5]\<rparr> = Some \<lparr>objects = [Some \<lparr>m_program = 5\<rparr>, Some \<lparr>m_program = 0\<rparr>, Some \<lparr>m_program = 5\<rparr>, Some \<lparr>m_program = 5\<rparr>], calls = [clRetainProgram 5, clRetainProgram 5, clRetainProgram 7, clReleaseProgram 7, clRetainProgram 5]\<rparr>"
    by code_simp
  from T [THEN conjunct2, THEN conjunct2, THEN conjunct2, THEN conjunct1, rule_format, OF h4]
  have c4: "handle_of \<lparr>objects = [Some \<lparr>m_program = 5\<rparr>, Some \<lparr>m_program = 0\<rparr>, Some \<lparr>m_program = 5\<rparr>, Some \<lparr>m_program = 5\<rparr>], calls = [clRetainProgram 5, clRetainProgram 5, clRetainProgram 7, clReleaseProgram 7, clRetainProgram 5]\<rparr> 3 = 5 \<and> handle_of \<lparr>objects = [Some \<lparr>m_program = 5\<rparr>, Some \<lparr>m_program = 0\<rparr>, Some \<lparr>m_program = 5\<rparr>, Some \<lparr>m_program = 5\<rparr>], calls = [clRetainProgram 5, clRetainProgram 5, clRetainProgram 7, clReleaseProgram 7, clRetainProgram 5]\<rparr> 1 = 0"
    by (simp add: handle_of_def)
  have h5: "step (move_assign 1 2) \<lparr>objects = [Some \<lparr>m_program = 5\<rparr>, Some \<lparr>m_program = 0\<rparr>, Some \<lparr>m_program = 5\<rparr>, Some \<lparr>m_program = 5\<rparr>], calls = [clRetainProgram 5, clRetainProgram 5, clRetainProgram 7, clReleaseProgram 7, clRetainProgram 5]\<rparr> = Some \<lparr>objects = [Some \<lparr>m_program = 5\<rparr>, Some \<lparr>m_program = 5\<rparr>, Some \<lparr>m_program = 0\<rparr>, Some \<lparr>m_program = 5\<rparr>], calls = [clRetainProgram 5, clRetainProgram 5, clRetainProgram 7, clReleaseProgram 7, clRetainProgram 5]\<rparr>"
    by code_simp
  from T [THEN conjunct2, THEN conjunct2, THEN conjunct2, THEN conjunct2, THEN conjunct1, rule_format, OF h5]
  have c5: "handle_of \<lparr>objects = [Some \<lparr>m_program = 5\<rparr>, Some \<lparr>m_program = 5\<rparr>, Some \<lparr>m_program = 0\<rparr>, Some \<lparr>m_program = 5\<rparr>], calls = [clRetainProgram 5, clRetainProgram 5, clRetainProgram 7, clReleaseProgram 7, clRetainProgram 5]\<rparr> 2 = 0 \<and> handle_of \<lparr>objects = [Some \<lparr>m_program = 5\<rparr>, Some \<lparr>m_program = 5\<rparr>, Some \<lparr>m_program = 0\<rparr>, Some \<lparr>m_program = 5\<rparr>], calls = [clRetainProgram 5, clRetainProgram 5, clRetainProgram 7, clReleaseProgram 7, clRetainProgram 5]\<rparr> 1 = 5"
    by (simp add: handle_of_def)
  have h6: "step (destroy 0) \<lparr>objects = [Some \<lparr>m_program = 5\<rparr>, Some \<lparr>m_program = 5\<rparr>, Some \<lparr>m_program = 0\<rparr>, Some \<lparr>m_program = 5\<rparr>], calls = [clRetainProgram 5, clRetainProgram 5, clRetainProgram 7, clReleaseProgram 7, clRetainProgram 5]\<rparr> = Some \<lparr>objects = [None, Some \<lparr>m_program = 5\<rparr>, Some \<lparr>m_program = 0\<rparr>, Some \<lparr>m_program = 5\<rparr>], calls = [clRetainProgram 5, clRetainProgram 5, clRetainProgram 7, clReleaseProgram 7, clRetainProgram 5, clReleaseProgram 5]\<rparr>"
    by code_simp
  from T [THEN conjunct2, THEN conjunct2, THEN conjunct2, THEN conjunct2, THEN conjunct2, THEN conjunct1, rule_format, OF h6]
  have c6: "\<not> alive \<lparr>objects = [None, Some \<lparr>m_program = 5\<rparr>, Some \<lparr>m_program = 0\<rparr>, Some \<lparr>m_program = 5\<rparr>], calls = [clRetainProgram 5, clRetainProgram 5, clRetainProgram 7, clReleaseProgram 7, clRetainProgram 5, clReleaseProgram 5]\<rparr> 0"
    by (simp add: handle_of_def)
  have h7: "run [construct 5 True, construct_copy 0, construct 7 True, copy_assign 2 0, construct_move 1, move_assign 1 2, destroy 0, destroy 1, destroy 2, destroy 3] init = Some \<lparr>objects = [None, None, None, None], calls = [clRetainProgram 5, clRetainProgram 5, clRetainProgram 7, clReleaseProgram 7, clRetainProgram 5, clReleaseProgram 5, clReleaseProgram 5, clReleaseProgram 5]\<rparr>"
    by code_simp
  have n7: "(5::nat) \<noteq> 0" by simp
  have a7: "adopted [construct 5 True, construct_copy 0, construct 7 True, copy_assign 2 0, construct_move 1, move_assign 1 2, destroy 0, destroy 1, destroy 2, destroy 3] 5 = 0"
    by code_simp
  have o7: "holders \<lparr>objects = [None, None, None, None], calls = [clRetainProgram 5, clRetainProgram 5, clRetainProgram 7, clReleaseProgram 7, clRetainProgram 5, clReleaseProgram 5, clReleaseProgram 5, clReleaseProgram 5]\<rparr> 5 = 0"
    by code_simp
  note r7 = T [THEN conjunct2, THEN conjunct2, THEN conjunct2, THEN conjunct2, THEN conjunct2, THEN conjunct2, rule_format, OF h7]
  from r7 have c7a: "clRetainProgram 0 \<notin> set (calls \<lparr>objects = [None, None, None, None], calls = [clRetainProgram 5, clRetainProgram 5, clRetainProgram 7, clReleaseProgram 7, clRetainProgram 5, clReleaseProgram 5, clReleaseProgram 5, clReleaseProgram 5]\<rparr>)" and c7b: "clReleaseProgram 0 \<notin> set (calls \<lparr>objects = [None, None, None, None], calls = [clRetainProgram 5, clRetainProgram 5, clRetainProgram 7, clReleaseProgram 7, clRetainProgram 5, clReleaseProgram 5, clReleaseProgram 5, clReleaseProgram 5]\<rparr>)"
    by blast+
  from r7 n7 have c7c: "count_change (calls \<lparr>objects = [None, None, None, None], calls = [clRetainProgram 5, clRetainProgram 5, clRetainProgram 7, clReleaseProgram 7, clRetainProgram 5, clReleaseProgram 5, clReleaseProgram 5, clReleaseProgram 5]\<rparr>) 5 + int (adopted [construct 5 True, construct_copy 0, construct 7 True, copy_assign 2 0, construct_move 1, move_assign 1 2, destroy 0, destroy 1, destroy 2, destroy 3] 5) = int (holders \<lparr>objects = [None, None, None, None], calls = [clRetainProgram 5, clRetainProgram 5, clRetainProgram 7, clReleaseProgram 7, clRetainProgram 5, clReleaseProgram 5, clReleaseProgram 5, clReleaseProgram 5]\<rparr> 5)"
    by blast
  from r7 n7 a7 o7 have c7d: "count_list (calls \<lparr>objects = [None, None, None, None], calls = [clRetainProgram 5, clRetainProgram 5, clRetainProgram 7, clReleaseProgram 7, clRetainProgram 5, clReleaseProgram 5, clReleaseProgram 5, clReleaseProgram 5]\<rparr>) (clRetainProgram 5) = count_list (calls \<lparr>objects = [None, None, None, None], calls = [clRetainProgram 5, clRetainProgram 5, clRetainProgram 7, clReleaseProgram 7, clRetainProgram 5, clReleaseProgram 5, clReleaseProgram 5, clReleaseProgram 5]\<rparr>) (clReleaseProgram 5)"
    by blast
  from h1 c1 h2 c2 n3 h3 c3 h4 c4 h5 c5 h6 c6 h7 n7 a7 o7 c7a c7b c7c c7d
  show ?thesis by simp
qed

subsection \<open>C10: copy assignment to itself\<close>

text \<open>
  C10. Copy assignment of a living program to itself changes nothing: the object, every
  other object and the list of the driver calls are as before, so no retain and no
  release is made and the count of the wrapped handle is as it was.
\<close>

theorem self_copy_assign_unchanged:
  "alive s this \<Longrightarrow>
     assign_copy this this s = Some s
     \<and> step (copy_assign this this) s = Some s
     \<and> (\<forall>s'. assign_copy this this s = Some s' \<longrightarrow>
           handle_of s' this = handle_of s this \<and> calls s' = calls s
           \<and> count_change (calls s') (handle_of s this)
               = count_change (calls s) (handle_of s this))"
  by (simp add: assign_copy_def)

theorem self_copy_assign_unchanged_witness:
  "alive \<lparr>objects = [Some \<lparr>m_program = 5\<rparr>], calls = [clRetainProgram 5]\<rparr> 0
   \<and> assign_copy 0 0 \<lparr>objects = [Some \<lparr>m_program = 5\<rparr>], calls = [clRetainProgram 5]\<rparr>
       = Some \<lparr>objects = [Some \<lparr>m_program = 5\<rparr>], calls = [clRetainProgram 5]\<rparr>
   \<and> step (copy_assign 0 0) \<lparr>objects = [Some \<lparr>m_program = 5\<rparr>], calls = [clRetainProgram 5]\<rparr>
       = Some \<lparr>objects = [Some \<lparr>m_program = 5\<rparr>], calls = [clRetainProgram 5]\<rparr>"
proof -
  have a: "alive \<lparr>objects = [Some \<lparr>m_program = 5\<rparr>], calls = [clRetainProgram 5]\<rparr> 0"
    by (simp add: alive_def)
  from self_copy_assign_unchanged [OF a] a show ?thesis by simp
qed

subsection \<open>C5: \<open>build\<close>\<close>

text \<open>
  C5. \<open>p.build(options)\<close> makes one call, \<open>clBuildProgram\<close> on the wrapped handle with the
  options (a null pointer when they are empty), and throws \<open>opencl_error\<close> with the
  driver's return code if and only if that code is not \<open>CL_SUCCESS\<close>; with \<open>CL_SUCCESS\<close> it
  returns normally.
\<close>

theorem build_throws_iff_not_success:
  "snd (build driver p options)
     = [clBuildProgram (m_program p) (if options = [] then None else Some options)]
   \<and> ((\<exists>e. fst (build driver p options) = Inl e)
        \<longleftrightarrow> driver (m_program p) (if options = [] then None else Some options) \<noteq> CL_SUCCESS)
   \<and> (\<forall>e. fst (build driver p options) = Inl e \<longrightarrow>
          e = opencl_error (driver (m_program p) (if options = [] then None else Some options)))
   \<and> (driver (m_program p) (if options = [] then None else Some options) = CL_SUCCESS
        \<longrightarrow> fst (build driver p options) = Inr ())"
  by (auto simp: build_def Let_def)

theorem build_throws_iff_not_success_witness:
  "fst (build (\<lambda>h opts. if opts = None then 0 else - 11) \<lparr>m_program = 3\<rparr> ''-cl-fast'')
     = Inl (opencl_error (- 11))
   \<and> snd (build (\<lambda>h opts. if opts = None then 0 else - 11) \<lparr>m_program = 3\<rparr> ''-cl-fast'')
     = [clBuildProgram 3 (Some ''-cl-fast'')]
   \<and> (\<lambda>h opts. if opts = None then 0 else - 11) (3 :: cl_program) (None :: string option)
     = CL_SUCCESS
   \<and> fst (build (\<lambda>h opts. if opts = None then 0 else - 11) \<lparr>m_program = 3\<rparr> [])
     = Inr ()"
proof -
  let ?d = "\<lambda>(h :: cl_program) (opts :: string option). if opts = None then 0 else - 11 :: cl_int"
  note T = build_throws_iff_not_success [of ?d "\<lparr>m_program = 3\<rparr>"]
  have f: "fst (build ?d \<lparr>m_program = 3\<rparr> ''-cl-fast'') = Inl (opencl_error (- 11))"
    by (simp add: build_def CL_SUCCESS_def)
  from T [of "''-cl-fast''", THEN conjunct2, THEN conjunct2, THEN conjunct1, rule_format, OF f]
  have e: "opencl_error (- 11) = opencl_error (?d 3 (Some ''-cl-fast''))"
    by simp
  have s: "?d 3 None = CL_SUCCESS"
    by (simp add: CL_SUCCESS_def)
  from T [of "[]", THEN conjunct2, THEN conjunct2, THEN conjunct2, rule_format] s
  have r: "fst (build ?d \<lparr>m_program = 3\<rparr> []) = Inr ()"
    by simp
  from T [of "''-cl-fast''", THEN conjunct1]
  have c: "snd (build ?d \<lparr>m_program = 3\<rparr> ''-cl-fast'') = [clBuildProgram 3 (Some ''-cl-fast'')]"
    by simp
  from f c s r show ?thesis by simp
qed

subsection \<open>C6: creation\<close>

text \<open>
  C6. \<open>create_with_source\<close> and \<open>create_with_binary\<close> throw \<open>opencl_error\<close> with the driver's
  error code when the driver returns the null handle; \<open>create_with_binary\<close> also throws,
  with the binary status, when the handle is not null and the status is not
  \<open>CL_SUCCESS\<close>; otherwise each returns a program that wraps the driver's handle. The only
  call made is the creation itself: the handle is never retained.
\<close>

theorem create_adopts_or_throws:
  "(driver context src = (h, err) \<longrightarrow>
      create_with_source driver src context
        = (if h = 0 then Inl (opencl_error err) else Inr \<lparr>m_program = h\<rparr>,
           [clCreateProgramWithSource context src]))
   \<and> (driver' context binary = (h', status, err') \<longrightarrow>
      create_with_binary driver' binary context
        = (if h' = 0 then Inl (opencl_error err')
           else if status \<noteq> CL_SUCCESS then Inl (opencl_error status)
           else Inr \<lparr>m_program = h'\<rparr>,
           [clCreateProgramWithBinary context binary]))
   \<and> clRetainProgram g \<notin> set (snd (create_with_source driver src context))
   \<and> clRetainProgram g \<notin> set (snd (create_with_binary driver' binary context))"
proof (intro conjI impI)
  assume "driver context src = (h, err)"
  then show "create_with_source driver src context
        = (if h = 0 then Inl (opencl_error err) else Inr \<lparr>m_program = h\<rparr>,
           [clCreateProgramWithSource context src])"
    by (simp add: create_with_source_def program_new_def)
next
  assume "driver' context binary = (h', status, err')"
  then show "create_with_binary driver' binary context
        = (if h' = 0 then Inl (opencl_error err')
           else if status \<noteq> CL_SUCCESS then Inl (opencl_error status)
           else Inr \<lparr>m_program = h'\<rparr>,
           [clCreateProgramWithBinary context binary])"
    by (simp add: create_with_binary_def program_new_def)
next
  show "clRetainProgram g \<notin> set (snd (create_with_source driver src context))"
    by (simp add: create_with_source_def program_new_def Let_def split: prod.splits)
next
  show "clRetainProgram g \<notin> set (snd (create_with_binary driver' binary context))"
    by (simp add: create_with_binary_def program_new_def Let_def split: prod.splits)
qed

theorem create_adopts_or_throws_witness:
  "(\<lambda>c s. if s = [] then (0, - 30) else (4, 0)) (1 :: cl_context) ''kernel'' = (4, 0)
   \<and> create_with_source (\<lambda>c s. if s = [] then (0, - 30) else (4, 0)) ''kernel'' 1
       = (Inr \<lparr>m_program = 4\<rparr>, [clCreateProgramWithSource 1 ''kernel''])
   \<and> (\<lambda>c s. if s = [] then (0, - 30) else (4, 0)) (1 :: cl_context) '''' = (0, - 30)
   \<and> create_with_source (\<lambda>c s. if s = [] then (0, - 30) else (4, 0)) '''' 1
       = (Inl (opencl_error (- 30)), [clCreateProgramWithSource 1 ''''])
   \<and> (\<lambda>c b. (6, - 42, 0)) (1 :: cl_context) [1, 2 :: 8 word] = (6, - 42, 0)
   \<and> create_with_binary (\<lambda>c b. (6, - 42, 0)) [1, 2] 1
       = (Inl (opencl_error (- 42)), [clCreateProgramWithBinary 1 [1, 2]])"
proof -
  let ?d = "\<lambda>(c :: cl_context) (s :: string). if s = [] then (0, - 30) else (4 :: cl_program, 0 :: cl_int)"
  let ?b = "\<lambda>(c :: cl_context) (b :: 8 word list). (6 :: cl_program, - 42 :: cl_int, 0 :: cl_int)"
  have a: "?d 1 ''kernel'' = (4, 0)" by simp
  have b: "?d 1 '''' = (0, - 30)" by simp
  have c: "?b 1 [1, 2] = (6, - 42, 0)" by simp
  from create_adopts_or_throws [of ?d 1 "''kernel''" 4 0, THEN conjunct1, rule_format, OF a]
  have a': "create_with_source ?d ''kernel'' 1
       = (Inr \<lparr>m_program = 4\<rparr>, [clCreateProgramWithSource 1 ''kernel''])"
    by simp
  from create_adopts_or_throws [of ?d 1 "''''" 0 "- 30", THEN conjunct1, rule_format, OF b]
  have b': "create_with_source ?d '''' 1
       = (Inl (opencl_error (- 30)), [clCreateProgramWithSource 1 ''''])"
    by simp
  from create_adopts_or_throws [of _ 1 _ _ _ ?b "[1, 2]" 6 "- 42" 0,
      THEN conjunct2, THEN conjunct1, rule_format, OF c]
  have c': "create_with_binary ?b [1, 2] 1
       = (Inl (opencl_error (- 42)), [clCreateProgramWithBinary 1 [1, 2]])"
    by (simp add: CL_SUCCESS_def)
  from a a' b b' c c' show ?thesis by simp
qed

subsection \<open>C7: \<open>get_info\<close>\<close>

text \<open>
  C7. \<open>p.get_info<T>(info)\<close> is the value that \<open>clGetProgramInfo\<close> gives for the wrapped
  handle and \<open>info\<close>, unchanged; \<open>source()\<close> is the answer to \<open>CL_PROGRAM_SOURCE\<close> and
  \<open>get_context()\<close> is a context that wraps the answer to \<open>CL_PROGRAM_CONTEXT\<close>.
\<close>

theorem get_info_forwards:
  "get_info clGetProgramInfo p info = clGetProgramInfo (m_program p) info
   \<and> source query_string p = query_string (m_program p) CL_PROGRAM_SOURCE
   \<and> m_context (fst (get_context query_context p))
       = query_context (m_program p) CL_PROGRAM_CONTEXT"
  by (simp add: get_info_def get_object_info_def source_def get_context_def context_new_def)

theorem get_info_forwards_witness:
  "get_info (\<lambda>h i. if i = CL_PROGRAM_NUM_DEVICES then h + 1 else 0) \<lparr>m_program = 3\<rparr>
       CL_PROGRAM_NUM_DEVICES = (4 :: nat)
   \<and> source (\<lambda>h i. if i = CL_PROGRAM_SOURCE then ''kernel'' else '''') \<lparr>m_program = 3\<rparr>
       = ''kernel''
   \<and> m_context (fst (get_context (\<lambda>h i. if i = CL_PROGRAM_CONTEXT then 9 else 0)
       \<lparr>m_program = 3\<rparr>)) = 9"
  using
    get_info_forwards [of "\<lambda>h i. if i = CL_PROGRAM_NUM_DEVICES then h + 1 else 0"
      "\<lparr>m_program = 3\<rparr>" CL_PROGRAM_NUM_DEVICES
      "\<lambda>h i. if i = CL_PROGRAM_SOURCE then ''kernel'' else ''''"
      "\<lambda>h i. if i = CL_PROGRAM_CONTEXT then 9 else 0"]
  by simp

subsection \<open>Sorting: strict weak orders\<close>





lemma equivalent_sym: "equivalent c a b \<Longrightarrow> equivalent c b a"
  by (simp add: equivalent_def)


lemma strict_weak_order_less: "strict_weak_order (compare_of (compare_less :: 'a::len word compare))"
  by (auto simp: strict_weak_order_def equivalent_def fun_eq_iff)


subsection \<open>Sorting: the insertion sort\<close>

declare insert_value.simps [simp del]

lemma insert_value_Nil [simp]: "insert_value c v [] = [v]"
  by (simp add: insert_value.simps)

lemma insert_value_snoc [simp]:
  "insert_value c v (ys @ [y]) = (if c v y then insert_value c v ys @ [y] else ys @ [y, v])"
  by (subst insert_value.simps) simp

lemma set_insert_value [simp]: "set (insert_value c v ys) = insert v (set ys)"
  by (induction ys rule: rev_induct) auto





lemma mset_insert_value [simp]: "mset (insert_value c v ys) = add_mset v (mset ys)"
  by (induction ys rule: rev_induct) auto

lemma mset_foldl_insert:
  "mset (foldl (\<lambda>data v. insert_value c v data) acc xs) = mset acc + mset xs"
  by (induction xs arbitrary: acc) simp_all



lemma mset_insertion_sort [simp]: "mset (insertion_sort c xs) = mset xs"
  by (simp add: insertion_sort_def mset_foldl_insert)

lemma length_insertion_sort [simp]: "length (insertion_sort c xs) = length xs"
proof -
  have "size (mset (insertion_sort c xs)) = size (mset xs)"
    by (simp only: mset_insertion_sort)
  then show ?thesis by (simp only: size_mset)
qed


subsection \<open>Sorting: the radix sort\<close>

lemma mset_radix_pass [simp]: "mset (radix_pass k xs) = mset xs"
  by (simp add: radix_pass_def)

lemma mset_radix_passes [simp]: "mset (radix_passes n xs) = mset xs"
  by (induction n) (simp_all add: radix_passes_def)

lemma take_bit_Suc_le:
  fixes a b :: "'a::len word"
  assumes "bit a n \<longrightarrow> bit b n"
    and "bit a n = bit b n \<longrightarrow> take_bit n a \<le> take_bit n b"
  shows "take_bit (Suc n) a \<le> take_bit (Suc n) b"
proof -
  have eq: "\<And>w :: 'a word. unat (take_bit (Suc n) w) = 2 ^ n * of_bool (bit w n) + unat (take_bit n w)"
    by (simp add: unsigned_take_bit_eq take_bit_Suc_from_most bit_unsigned_iff)
  have lt: "\<And>w :: 'a word. unat (take_bit n w) < 2 ^ n"
    by (simp add: unsigned_take_bit_eq)
  show ?thesis
  proof (cases "bit a n = bit b n")
    case True
    with assms(2) have "unat (take_bit n a) \<le> unat (take_bit n b)"
      by (simp add: word_le_nat_alt)
    with True show ?thesis
      by (simp add: word_le_nat_alt eq)
  next
    case False
    with assms(1) have "\<not> bit a n" and "bit b n" by auto
    with lt [of a] show ?thesis
      by (simp add: word_le_nat_alt eq)
  qed
qed

lemma sorted_radix_pass:
  fixes xs :: "'a::len word list"
  assumes "sorted_wrt (\<lambda>a b. take_bit n a \<le> take_bit n b) xs"
  shows "sorted_wrt (\<lambda>a b. take_bit (Suc n) a \<le> take_bit (Suc n) b) (radix_pass n xs)"
proof -
  have clear: "sorted_wrt (\<lambda>a b. take_bit (Suc n) a \<le> take_bit (Suc n) b) (filter (\<lambda>x. \<not> bit x n) xs)"
    using sorted_wrt_filter [OF assms, of "\<lambda>x. \<not> bit x n"]
    by (rule sorted_wrt_mono_rel [rotated]) (simp add: take_bit_Suc_le)
  have set: "sorted_wrt (\<lambda>a b. take_bit (Suc n) a \<le> take_bit (Suc n) b) (filter (\<lambda>x. bit x n) xs)"
    using sorted_wrt_filter [OF assms, of "\<lambda>x. bit x n"]
    by (rule sorted_wrt_mono_rel [rotated]) (simp add: take_bit_Suc_le)
  from clear set show ?thesis
    by (simp add: radix_pass_def sorted_wrt_append take_bit_Suc_le)
qed

lemma radix_passes_Suc: "radix_passes (Suc n) xs = radix_pass n (radix_passes n xs)"
  by (simp add: radix_passes_def)

lemma sorted_radix_passes:
  fixes xs :: "'a::len word list"
  shows "sorted_wrt (\<lambda>a b. take_bit n a \<le> take_bit n b) (radix_passes n xs)"
proof (induction n)
  case 0
  show ?case by (simp add: radix_passes_def)
next
  case (Suc n)
  from sorted_radix_pass [OF Suc] show ?case by (simp add: radix_passes_Suc)
qed

lemma sorted_radix_sort_values:
  fixes xs :: "'a::len word list"
  shows "sorted (radix_sort_values xs)"
  using sorted_radix_passes [of "LENGTH('a)" xs]
  by (simp add: radix_sort_values_def)

lemma mset_radix_sort_values [simp]: "mset (radix_sort_values xs) = mset xs"
  by (simp add: radix_sort_values_def)

lemma radix_sort_values_eq_sort: "radix_sort_values xs = sort xs"
  by (rule properties_for_sort [symmetric]) (simp_all add: sorted_radix_sort_values)


subsection \<open>Sorting: ranges and the dispatch\<close>




lemma memory_run_on_range [simp]:
  "memory (run_on_range r f first last' queue) = on_range f first last' (memory queue)"
  by (simp add: run_on_range_def)

lemma invoked_run_on_range [simp]:
  "invoked (run_on_range r f first last' queue) = invoked queue @ [r]"
  by (simp add: run_on_range_def)

lemma length_radix_sort_values [simp]: "length (radix_sort_values xs) = length xs"
proof -
  have "size (mset (radix_sort_values xs)) = size (mset xs)"
    by (simp only: mset_radix_sort_values)
  then show ?thesis by (simp only: size_mset)
qed












subsection \<open>Sorting: the three paths of the dispatch\<close>









subsection \<open>C1: \<open>stable_sort\<close> sorts and is stable\<close>



subsection \<open>C2: the routine that the dispatch runs\<close>



subsection \<open>C3: \<open>greater<T>\<close> on the radix path\<close>



subsection \<open>C8: the overload without a comparator\<close>

text \<open>
  C8. \<open>stable_sort(first, last, queue)\<close> does what
  \<open>stable_sort(first, last, less<value_type>(), queue)\<close> does: the memory, and with it the
  range, and the routines run are the same.
\<close>

theorem stable_sort_default_is_less:
  "stable_sort_default iterator radix_sortable first last' queue
     = stable_sort iterator radix_sortable first last' compare_less queue"
  by (simp add: stable_sort_default_def)

theorem stable_sort_default_is_less_witness:
  "stable_sort_default buffer_iterator True 1 4 \<lparr>memory = [9, 5, 2, 4, 0 :: 8 word], invoked = []\<rparr>
     = \<lparr>memory = [9, 2, 4, 5, 0], invoked = [call_radix_sort]\<rparr>
   \<and> stable_sort_default other_iterator False 1 4 \<lparr>memory = [9, 5, 2, 4, 0 :: 8 word], invoked = []\<rparr>
     = \<lparr>memory = [9, 2, 4, 5, 0], invoked = [call_serial_insertion_sort]\<rparr>"
proof -
  have r: "stable_sort buffer_iterator True 1 4 compare_less \<lparr>memory = [9, 5, 2, 4, 0 :: 8 word], invoked = []\<rparr>
      = \<lparr>memory = [9, 2, 4, 5, 0], invoked = [call_radix_sort]\<rparr>"
    by (simp add: stable_sort_def serial_insertion_sort_def radix_sort_def reverse_def run_on_range_def on_range_def slice_def radix_sort_values_eq_sort)
  have i: "stable_sort other_iterator False 1 4 compare_less \<lparr>memory = [9, 5, 2, 4, 0 :: 8 word], invoked = []\<rparr>
      = \<lparr>memory = [9, 2, 4, 5, 0], invoked = [call_serial_insertion_sort]\<rparr>"
    by (simp add: stable_sort_def serial_insertion_sort_def radix_sort_def reverse_def run_on_range_def on_range_def slice_def insertion_sort_def insert_value.simps)
  from r i show ?thesis
    by (simp only: stable_sort_default_is_less)
qed

end
